theory Spec2Isabelle
  imports Main
begin

section \<open>Cron fields and the field parser (schedule.go)\<close>

definition Any :: char where "Any = CHR ''*''"
definition ListSeparator :: char where "ListSeparator = CHR '',''"
definition Range_sep :: char where "Range_sep = CHR ''-''"
definition Step :: char where "Step = CHR ''/''"
definition Blank :: char where "Blank = CHR ''?''"
definition Last :: char where "Last = CHR ''L''"

definition Yearly :: string where "Yearly = ''@yearly''"
definition Annually :: string where "Annually = ''@annually''"
definition Monthly :: string where "Monthly = ''@monthly''"
definition Weekly :: string where "Weekly = ''@weekly''"
definition Daily :: string where "Daily = ''@daily''"
definition Midnight :: string where "Midnight = ''@midnight''"
definition Hourly :: string where "Hourly = ''@hourly''"

definition minuteInd :: int where "minuteInd = 0"
definition hourInd :: int where "hourInd = 1"
definition dayInd :: int where "dayInd = 2"
definition monthInd :: int where "monthInd = 3"
definition weekdayInd :: int where "weekdayInd = 4"

text \<open>
  A \<^verbatim>\<open>field\<close> describes one position of a cron expression. The source writes each
  \<^verbatim>\<open>Allowed\<close> list out in full, in ascending order (\<^verbatim>\<open>init\<close> sorts them again); here
  they are the same lists as intervals. \<^verbatim>\<open>Conversions\<close> is \<open>None\<close> for a \<^verbatim>\<open>nil\<close> map.
\<close>

record field =
  Name :: string
  Index :: int
  Allowed :: "int list"
  Conversions :: "(string \<times> int) list option"

definition minuteOpts :: field where
  "minuteOpts = \<lparr> Name = ''minute'', Index = minuteInd,
     Allowed = [0 .. 59],
     Conversions = None \<rparr>"

definition hourOpts :: field where
  "hourOpts = \<lparr> Name = ''hour'', Index = hourInd,
     Allowed = [0 .. 23],
     Conversions = None \<rparr>"

definition dayOpts :: field where
  "dayOpts = \<lparr> Name = ''day'', Index = dayInd,
     Allowed = [1 .. 31],
     Conversions = None \<rparr>"

definition monthOpts :: field where
  "monthOpts = \<lparr> Name = ''month'', Index = monthInd,
     Allowed = [1 .. 12],
     Conversions = Some [(''JAN'', 1), (''FEB'', 2), (''MAR'', 3), (''APR'', 4), (''MAY'', 5),
       (''JUN'', 6), (''JUL'', 7), (''AUG'', 8), (''SEP'', 9), (''OCT'', 10), (''NOV'', 11),
       (''DEC'', 12)] \<rparr>"

definition weekdayOpts :: field where
  "weekdayOpts = \<lparr> Name = ''weekday'', Index = weekdayInd,
     Allowed = [0 .. 6],
     Conversions = Some [(''SUN'', 0), (''MON'', 1), (''TUE'', 2), (''WED'', 3), (''THU'', 4),
       (''FRI'', 5), (''SAT'', 6)] \<rparr>"

definition cronShortcut :: "(string \<times> string) list" where
  "cronShortcut =
     [(Yearly, ''0 0 1 1 *''), (Annually, ''0 0 1 1 *''), (Monthly, ''0 0 1 * *''),
      (Weekly, ''0 0 * * 0''), (Daily, ''0 0 * * *''), (Midnight, ''0 0 * * *''),
      (Hourly, ''0 * * * *'')]"

definition field_Min :: "field \<Rightarrow> int" where "field_Min f = hd (Allowed f)"
definition field_Max :: "field \<Rightarrow> int" where "field_Max f = last (Allowed f)"

subsection \<open>The string functions of the standard library that the parser calls\<close>

definition upper_char :: "char \<Rightarrow> char" where
  "upper_char c =
     (case map_of (zip ''abcdefghijklmnopqrstuvwxyz'' ''ABCDEFGHIJKLMNOPQRSTUVWXYZ'') c of
        Some u \<Rightarrow> u | None \<Rightarrow> c)"

definition ToUpper :: "string \<Rightarrow> string" where
  "ToUpper s = map upper_char s"

definition ContainsRune :: "string \<Rightarrow> char \<Rightarrow> bool" where
  "ContainsRune s r = (r \<in> set s)"

definition Cut :: "string \<Rightarrow> char \<Rightarrow> string \<times> string \<times> bool" where
  "Cut s sep =
     (if sep \<in> set s
      then (takeWhile (\<lambda>c. c \<noteq> sep) s, tl (dropWhile (\<lambda>c. c \<noteq> sep) s), True)
      else (s, [], False))"

fun Split :: "string \<Rightarrow> char \<Rightarrow> string list" where
  "Split [] sep = [[]]"
| "Split (c # cs) sep =
     (if c = sep then [] # Split cs sep
      else (c # hd (Split cs sep)) # tl (Split cs sep))"

fun Join :: "string list \<Rightarrow> string \<Rightarrow> string" where
  "Join [] sep = []"
| "Join [x] sep = x"
| "Join (x # y # ys) sep = x @ sep @ Join (y # ys) sep"

definition is_space :: "char \<Rightarrow> bool" where
  "is_space c = (c \<in> set [CHR '' '', CHR 0x09, CHR 0x0A, CHR 0x0B, CHR 0x0C, CHR 0x0D])"

definition TrimSpace :: "string \<Rightarrow> string" where
  "TrimSpace s = rev (dropWhile is_space (rev (dropWhile is_space s)))"

definition digit_of :: "char \<Rightarrow> int option" where
  "digit_of c = map_of (zip ''0123456789'' [0, 1, 2, 3, 4, 5, 6, 7, 8, 9]) c"

fun digits_value :: "string \<Rightarrow> int \<Rightarrow> int option" where
  "digits_value [] acc = Some acc"
| "digits_value (c # cs) acc =
     (case digit_of c of None \<Rightarrow> None | Some d \<Rightarrow> digits_value cs (10 * acc + d))"

definition Atoi :: "string \<Rightarrow> int option" where
  "Atoi s =
     (let (neg, ds) =
            (case s of
               [] \<Rightarrow> (False, [])
             | c # cs \<Rightarrow>
                 if c = CHR ''-'' then (True, cs)
                 else if c = CHR ''+'' then (False, cs)
                 else (False, s))
      in if ds = [] then None
         else (case digits_value ds 0 of
                 None \<Rightarrow> None
               | Some n \<Rightarrow>
                   (let v = (if neg then - n else n)
                    in if v < - (2 ^ 63) \<or> 2 ^ 63 \<le> v then None else Some v)))"

subsection \<open>Errors and slices\<close>

datatype message =
    Text string
  | IsLessThan string int
  | IsGreaterThan string int
  | StartNotLess int int

datatype cron_error =
    FieldError string message
  | WrapErr string cron_error
  | AtoiError string
  | StepEntryError string string
  | StepOnce
  | IndexOutOfRange
  | FieldCount string nat
  | Joined "cron_error list"

type_synonym slice = "int list option"

definition elems :: "slice \<Rightarrow> int list" where
  "elems v = (case v of None \<Rightarrow> [] | Some xs \<Rightarrow> xs)"

definition sorted_compacted :: "int list \<Rightarrow> int list" where
  "sorted_compacted vs =
     (let c = remdups_adj (sort vs) in c @ replicate (length vs - length c) 0)"

definition deferred :: "cron_error + slice \<Rightarrow> cron_error + slice" where
  "deferred r = (case r of Inr (Some vs) \<Rightarrow> Inr (Some (sorted_compacted vs)) | _ \<Rightarrow> r)"

definition stepValues :: "int list \<Rightarrow> int \<Rightarrow> int list" where
  "stepValues values step =
     map snd (filter (\<lambda>(stepInd, stepVal). int stepInd mod step = 0) (enumerate 0 values))"

fun collect :: "string \<Rightarrow> (cron_error + slice) list \<Rightarrow> int list \<Rightarrow> cron_error + slice" where
  "collect name [] values = Inr (Some values)"
| "collect name (Inl err # rs) values = Inl (WrapErr name err)"
| "collect name (Inr sv # rs) values = collect name rs (values @ elems sv)"

definition conversion :: "field \<Rightarrow> string \<Rightarrow> int option" where
  "conversion f s = (case Conversions f of None \<Rightarrow> None | Some m \<Rightarrow> map_of m s)"

lemma length_ToUpper [simp]: "length (ToUpper s) = length s"
  by (simp add: ToUpper_def)

lemma Cut_found_lengths:
  assumes "(b, a, True) = Cut s sep"
  shows "length b < length s" and "length a < length s"
proof -
  from assms have in_s: "sep \<in> set s"
    by (auto simp: Cut_def split: if_splits)
  with assms have b: "b = takeWhile (\<lambda>c. c \<noteq> sep) s"
    and a: "a = tl (dropWhile (\<lambda>c. c \<noteq> sep) s)"
    by (auto simp: Cut_def)
  obtain d ds where d: "dropWhile (\<lambda>c. c \<noteq> sep) s = d # ds"
    using in_s by (cases "dropWhile (\<lambda>c. c \<noteq> sep) s") (auto simp: dropWhile_eq_Nil_conv)
  have "length (takeWhile (\<lambda>c. c \<noteq> sep) s) + length (dropWhile (\<lambda>c. c \<noteq> sep) s) = length s"
    by (metis length_append takeWhile_dropWhile_id)
  then have "length b + Suc (length a) = length s"
    using a b d by simp
  then show "length b < length s" and "length a < length s"
    by linarith+
qed

lemma Cut_found_max:
  "(b, a, True) = Cut s sep \<Longrightarrow> Suc (4 * max (length b) (length a)) < 4 * length s"
  using Cut_found_lengths [of b a s sep] by (simp add: max_def)

lemma Split_nonempty [simp]: "Split s sep \<noteq> []"
  by (induction s) auto

lemma Split_item_length:
  "x \<in> set (Split s sep) \<Longrightarrow> length x \<le> length s"
proof (induction s arbitrary: x)
  case Nil
  then show ?case by simp
next
  case (Cons c cs)
  obtain h t where ht: "Split cs sep = h # t"
    by (cases "Split cs sep") auto
  show ?case
  proof (cases "c = sep")
    case True
    with Cons show ?thesis by (auto simp: le_SucI)
  next
    case False
    with Cons.prems ht have "x = c # h \<or> x \<in> set t" by auto
    then show ?thesis
    proof
      assume "x = c # h"
      moreover have "length h \<le> length cs" using Cons.IH [of h] ht by simp
      ultimately show ?thesis by simp
    next
      assume "x \<in> set t"
      then have "length x \<le> length cs" using Cons.IH [of x] ht by simp
      then show ?thesis by simp
    qed
  qed
qed

lemma Split_item_shorter:
  "sep \<in> set s \<Longrightarrow> x \<in> set (Split s sep) \<Longrightarrow> length x < length s"
proof (induction s arbitrary: x)
  case Nil
  then show ?case by simp
next
  case (Cons c cs)
  obtain h t where ht: "Split cs sep = h # t"
    by (cases "Split cs sep") auto
  show ?case
  proof (cases "c = sep")
    case True
    with Cons.prems have "x = [] \<or> x \<in> set (Split cs sep)" by auto
    then show ?thesis
      using Split_item_length [of x cs sep] by auto
  next
    case False
    with Cons.prems have in_cs: "sep \<in> set cs" by auto
    from False Cons.prems ht have "x = c # h \<or> x \<in> set t" by auto
    then show ?thesis
    proof
      assume "x = c # h"
      moreover have "length h < length cs" using Cons.IH [OF in_cs, of h] ht by simp
      ultimately show ?thesis by simp
    next
      assume "x \<in> set t"
      then have "length x < length cs" using Cons.IH [OF in_cs, of x] ht by simp
      then show ?thesis by simp
    qed
  qed
qed

function parse :: "field \<Rightarrow> string \<Rightarrow> cron_error + slice"
  and parseStep :: "field \<Rightarrow> string \<Rightarrow> string \<Rightarrow> cron_error + slice"
  and parseRange :: "field \<Rightarrow> string \<Rightarrow> string \<Rightarrow> cron_error + slice"
  and parseList :: "field \<Rightarrow> string \<Rightarrow> cron_error + slice"
where
  "parse f s =
     (if s = [] then Inl (FieldError (Name f) (Text ''empty''))
      else if s = [Blank] \<and> Index f \<noteq> dayInd \<and> Index f \<noteq> monthInd \<and> Index f \<noteq> weekdayInd
        then Inl (FieldError (Name f)
               (Text ''wildcard ? only supported for day, month, and weekday fields''))
      else if s = [Any] \<or> s = [Blank]
        then deferred (Inr (if field_Min f \<le> field_Max f
                            then Some [field_Min f .. field_Max f] else None))
      else
        let u = ToUpper s in
        (case conversion f u of
           Some v \<Rightarrow> deferred (Inr (Some [v]))
         | None \<Rightarrow>
            (case Atoi u of
               Some m \<Rightarrow>
                 if m < field_Min f
                   then Inl (FieldError (Name f) (IsLessThan u (field_Min f)))
                 else if m > field_Max f
                   then Inl (FieldError (Name f) (IsGreaterThan u (field_Max f)))
                 else deferred (Inr (Some [m]))
             | None \<Rightarrow>
                 if \<not> (ContainsRune u ListSeparator \<or> ContainsRune u Range_sep
                        \<or> ContainsRune u Step \<or> ContainsRune u Last)
                   then Inl (WrapErr (Name f) (AtoiError u))
                 else if ContainsRune u ListSeparator
                   then deferred (parseList f u)
                 else
                   (case Cut u Step of
                      (beforeStep, afterStep, stepFound) \<Rightarrow>
                        if stepFound then deferred (parseStep f beforeStep afterStep)
                        else
                          (case Cut u Range_sep of
                             (beforeRange, afterRange, rangeFound) \<Rightarrow>
                               if rangeFound then deferred (parseRange f beforeRange afterRange)
                               else deferred (Inr None))))))"
| "parseStep f stepRange step =
     (if stepRange = [] \<or> step = []
        then Inl (FieldError (Name f) (Text ''empty step entry''))
      else
        (case Atoi step of
           None \<Rightarrow> Inl (WrapErr (Name f) (StepEntryError stepRange step))
         | Some stepVal \<Rightarrow>
             if stepVal < 1
               then Inl (FieldError (Name f) (Text ''step must be greater than 0''))
             else
               (case parse f stepRange of
                  Inl err \<Rightarrow> Inl (WrapErr (Name f) err)
                | Inr parsed \<Rightarrow>
                    let stepRangeValues =
                          (case elems parsed of
                             [minVal] \<Rightarrow> [minVal] @ filter (\<lambda>av. av > minVal) (Allowed f)
                           | vs \<Rightarrow> vs);
                        values = stepValues stepRangeValues stepVal
                    in if length values = 1
                         then Inl (WrapErr (Name f) StepOnce)
                       else Inr (Some values))))"
| "parseRange f beforeRange afterRange =
     (if afterRange = [] then Inl (FieldError (Name f) (Text ''empty end range''))
      else
        (case parse f beforeRange of
           Inl err \<Rightarrow> Inl (WrapErr (Name f) err)
         | Inr None \<Rightarrow> Inl (FieldError (Name f) (Text ''empty Start range''))
         | Inr (Some startMin) \<Rightarrow>
             if length startMin > 1
               then Inl (FieldError (Name f) (Text ''multiple Start range values''))
             else
               (case parse f afterRange of
                  Inl err \<Rightarrow> Inl (WrapErr (Name f) err)
                | Inr None \<Rightarrow> Inl (FieldError (Name f) (Text ''empty end range''))
                | Inr (Some endMin) \<Rightarrow>
                    if length endMin > 1
                      then Inl (FieldError (Name f) (Text ''multiple end range values''))
                    else
                      (case (startMin, endMin) of
                         (startNum # _, endNum # _) \<Rightarrow>
                           if startNum > endNum \<or> startNum = endNum
                             then Inl (FieldError (Name f) (StartNotLess startNum endNum))
                           else Inr (Some [startNum .. endNum])
                       | _ \<Rightarrow> Inl IndexOutOfRange))))"
| "parseList f s =
     collect (Name f) (map (parse f) (Split s ListSeparator)) []"
  by pat_completeness auto

termination
  apply (relation "measure (\<lambda>x. case x of
            Inl (Inl (f, s)) \<Rightarrow> 4 * length s + 3
          | Inl (Inr (f, a, b)) \<Rightarrow> 4 * length a + 4
          | Inr (Inl (f, a, b)) \<Rightarrow> 4 * max (length a) (length b) + 4
          | Inr (Inr (f, s)) \<Rightarrow> (if ListSeparator \<in> set s then 4 * length s + 2
                                   else 4 * length s + 4))")
  apply (auto simp: ContainsRune_def dest: Cut_found_lengths Split_item_shorter Split_item_length)
  apply (drule Cut_found_max, simp)+
  done

section \<open>Instants and the calendar (package time)\<close>

text \<open>
  The schedule reads \<^verbatim>\<open>time.Time\<close> values through the standard library. An instant is
  its Unix time in seconds together with its location; a location is a fixed offset in
  seconds east of UTC (\<^verbatim>\<open>time.UTC\<close>, \<^verbatim>\<open>time.FixedZone\<close>). Locations whose offset changes
  over time are outside this model, and so is the sub-second part of an instant, which
  \<^verbatim>\<open>Truncate(time.Minute)\<close> drops and nothing else in the package reads. Durations are in
  seconds. The calendar is the proleptic Gregorian one: days are counted from
  0001-01-01 (day 0, a Monday), a day number is cut into cycles of 400, 100, 4 and 1
  years as the library does, and the day of the year is looked up in the table of
  month starts.
\<close>

type_synonym Location = int

definition UTC :: Location where "UTC = 0"

record Time =
  unix :: int
  zone :: Location

definition Minute_d :: int where "Minute_d = 60"
definition Hour_d :: int where "Hour_d = 3600"

definition Add :: "Time \<Rightarrow> int \<Rightarrow> Time" where
  "Add t d = t \<lparr> unix := unix t + d \<rparr>"

definition In :: "Time \<Rightarrow> Location \<Rightarrow> Time" where
  "In t l = t \<lparr> zone := l \<rparr>"

definition Truncate :: "Time \<Rightarrow> int \<Rightarrow> Time" where
  "Truncate t d = (if d \<le> 0 then t else t \<lparr> unix := unix t - unix t mod d \<rparr>)"

definition After :: "Time \<Rightarrow> Time \<Rightarrow> bool" where
  "After t u = (unix t > unix u)"

definition Before :: "Time \<Rightarrow> Time \<Rightarrow> bool" where
  "Before t u = (unix t < unix u)"

definition isLeap :: "int \<Rightarrow> bool" where
  "isLeap year = (year mod 4 = 0 \<and> (year mod 100 \<noteq> 0 \<or> year mod 400 = 0))"

definition days_before_year :: "int \<Rightarrow> int" where
  "days_before_year year =
     (let y = year - 1 in 365 * y + y div 4 - y div 100 + y div 400)"

definition daysBefore :: "int list" where
  "daysBefore = [0, 31, 59, 90, 120, 151, 181, 212, 243, 273, 304, 334, 365]"

definition days_before_month :: "int \<Rightarrow> int \<Rightarrow> int" where
  "days_before_month year month =
     daysBefore ! nat (month - 1) + (if isLeap year \<and> month \<ge> 3 then 1 else 0)"

definition unix_epoch_day :: int where "unix_epoch_day = 719162"

definition abs_day :: "Time \<Rightarrow> int" where
  "abs_day t = (unix t + zone t) div 86400 + unix_epoch_day"

definition second_of_day :: "Time \<Rightarrow> int" where
  "second_of_day t = (unix t + zone t) mod 86400"

definition year_yday :: "int \<Rightarrow> int \<times> int" where
  "year_yday d =
     (let n400 = d div 146097;
          d1 = d - 146097 * n400;
          n100 = min (d1 div 36524) 3;
          d2 = d1 - 36524 * n100;
          n4 = d2 div 1461;
          d3 = d2 - 1461 * n4;
          n1 = min (d3 div 365) 3;
          yday = d3 - 365 * n1
      in (400 * n400 + 100 * n100 + 4 * n4 + n1 + 1, yday))"

definition month_day :: "bool \<Rightarrow> int \<Rightarrow> int \<times> int" where
  "month_day leap yday =
     (let l = (if leap then 1 else 0) in
      if yday < 31 then (1, yday + 1)
      else if yday < 59 + l then (2, yday - 30)
      else if yday < 90 + l then (3, yday - (58 + l))
      else if yday < 120 + l then (4, yday - (89 + l))
      else if yday < 151 + l then (5, yday - (119 + l))
      else if yday < 181 + l then (6, yday - (150 + l))
      else if yday < 212 + l then (7, yday - (180 + l))
      else if yday < 243 + l then (8, yday - (211 + l))
      else if yday < 273 + l then (9, yday - (242 + l))
      else if yday < 304 + l then (10, yday - (272 + l))
      else if yday < 334 + l then (11, yday - (303 + l))
      else (12, yday - (333 + l)))"

definition date_of :: "int \<Rightarrow> int \<times> int \<times> int" where
  "date_of d =
     (let (year, yday) = year_yday d;
          (month, day) = month_day (isLeap year) yday
      in (year, month, day))"

definition Time_Year :: "Time \<Rightarrow> int" where
  "Time_Year t = fst (date_of (abs_day t))"

definition Time_Month :: "Time \<Rightarrow> int" where
  "Time_Month t = fst (snd (date_of (abs_day t)))"

definition Time_Day :: "Time \<Rightarrow> int" where
  "Time_Day t = snd (snd (date_of (abs_day t)))"

definition Time_Hour :: "Time \<Rightarrow> int" where
  "Time_Hour t = second_of_day t div 3600"

definition Time_Minute :: "Time \<Rightarrow> int" where
  "Time_Minute t = (second_of_day t mod 3600) div 60"

definition Time_Weekday :: "Time \<Rightarrow> int" where
  "Time_Weekday t = (abs_day t + 1) mod 7"

definition Date :: "int \<Rightarrow> int \<Rightarrow> int \<Rightarrow> int \<Rightarrow> int \<Rightarrow> int \<Rightarrow> Location \<Rightarrow> Time" where
  "Date year month day hour minute sec l =
     (let m = month - 1;
          y = year + m div 12;
          mo = m mod 12 + 1;
          d = days_before_year y + days_before_month y mo + (day - 1) - unix_epoch_day
      in \<lparr> unix = d * 86400 + hour * 3600 + minute * 60 + sec - l, zone = l \<rparr>)"

text \<open>
  The calendar's own words, for stating properties: the length of a year and the number
  of days of a month (its last day).
\<close>

definition year_length :: "int \<Rightarrow> int" where
  "year_length y = (if isLeap y then 366 else 365)"

definition days_in_month :: "int \<Rightarrow> int \<Rightarrow> int" where
  "days_in_month year month =
     (if month = 2 then (if isLeap year then 29 else 28)
      else if month = 4 \<or> month = 6 \<or> month = 9 \<or> month = 11 then 30
      else 31)"

section \<open>The schedule (schedule.go)\<close>

text \<open>
  The struct \<^verbatim>\<open>Schedule\<close>. Its array \<^verbatim>\<open>values [5]string\<close> is the list \<open>cron_values\<close>
  (\<^verbatim>\<open>values\<close> is a keyword of the theory language). The five string fields
  \<^verbatim>\<open>minute\<close>, ..., \<^verbatim>\<open>weekday\<close> of the struct are never written or read and are left
  out. A slice is \<open>None\<close> when it is \<^verbatim>\<open>nil\<close>.
\<close>

record Schedule =
  cron_values :: "string list"
  loc :: Location
  created :: Time
  minutes :: slice
  minutesDesc :: slice
  allowAnyMinute :: bool
  hours :: slice
  allowAnyHour :: bool
  days :: slice
  allowAnyDay :: bool
  months :: slice
  allowAnyMonth :: bool
  weekdays :: slice
  allowAnyWeekday :: bool

definition Schedule_Minute :: "Schedule \<Rightarrow> string" where
  "Schedule_Minute s = cron_values s ! nat minuteInd"

definition Schedule_Hour :: "Schedule \<Rightarrow> string" where
  "Schedule_Hour s = cron_values s ! nat hourInd"

definition Schedule_Day :: "Schedule \<Rightarrow> string" where
  "Schedule_Day s = cron_values s ! nat dayInd"

definition Schedule_Month :: "Schedule \<Rightarrow> string" where
  "Schedule_Month s = cron_values s ! nat monthInd"

definition Schedule_Weekday :: "Schedule \<Rightarrow> string" where
  "Schedule_Weekday s = cron_values s ! nat weekdayInd"

definition String :: "Schedule \<Rightarrow> string" where
  "String s = Join (cron_values s) '' ''"

definition errors_Join :: "cron_error option list \<Rightarrow> cron_error option" where
  "errors_Join errs =
     (let es = List.map_filter (\<lambda>e. e) errs
      in if es = [] then None else Some (Joined es))"

definition parsed_values :: "cron_error + slice \<Rightarrow> slice" where
  "parsed_values r = (case r of Inl err \<Rightarrow> None | Inr v \<Rightarrow> v)"

definition parsed_error :: "cron_error + slice \<Rightarrow> cron_error option" where
  "parsed_error r = (case r of Inl err \<Rightarrow> Some err | Inr v \<Rightarrow> None)"

definition revSlice :: "int list \<Rightarrow> int list" where
  "revSlice ms =
     (let n = length ms
      in map (\<lambda>i. if 2 * i + 1 = n then 0 else ms ! (n - 1 - i)) [0 ..< n])"

text \<open>
  \<^verbatim>\<open>validate\<close> runs five \<^verbatim>\<open>switch\<close> statements in a row, one per field; each is a
  function here, from the schedule and the error list so far to both after it. A field
  that is not a wildcard appends its error to the list even when that error is \<^verbatim>\<open>nil\<close>
  (\<open>None\<close>); \<^verbatim>\<open>errors.Join\<close> drops the \<^verbatim>\<open>nil\<close> entries and is \<^verbatim>\<open>nil\<close> when none is
  left.
\<close>

definition validate_minute ::
  "Schedule \<Rightarrow> cron_error option list \<Rightarrow> Schedule \<times> cron_error option list" where
  "validate_minute s errs =
     (let ms = Schedule_Minute s in
      if ms = [Any] then (s \<lparr> allowAnyMinute := True \<rparr>, errs)
      else
        let r = parse minuteOpts ms
        in (s \<lparr> minutes := parsed_values r,
                minutesDesc := Some (revSlice (elems (parsed_values r))) \<rparr>,
            errs @ [parsed_error r]))"

definition validate_hour ::
  "Schedule \<Rightarrow> cron_error option list \<Rightarrow> Schedule \<times> cron_error option list" where
  "validate_hour s errs =
     (let hs = Schedule_Hour s in
      if hs = [Any] then (s \<lparr> allowAnyHour := True \<rparr>, errs)
      else
        let r = parse hourOpts hs
        in (s \<lparr> hours := parsed_values r \<rparr>, errs @ [parsed_error r]))"

definition validate_day ::
  "Schedule \<Rightarrow> cron_error option list \<Rightarrow> Schedule \<times> cron_error option list" where
  "validate_day s errs =
     (let ds = Schedule_Day s in
      if ds = [Any] \<or> ds = [Blank] then (s \<lparr> allowAnyDay := True \<rparr>, errs)
      else
        let r = parse dayOpts ds
        in (s \<lparr> days := parsed_values r \<rparr>, errs @ [parsed_error r]))"

definition validate_month ::
  "Schedule \<Rightarrow> cron_error option list \<Rightarrow> Schedule \<times> cron_error option list" where
  "validate_month s errs =
     (let ms = Schedule_Month s in
      if ms = [Any] \<or> ms = [Blank] then (s \<lparr> allowAnyMonth := True \<rparr>, errs)
      else
        let r = parse monthOpts ms
        in (s \<lparr> months := parsed_values r \<rparr>, errs @ [parsed_error r]))"

definition validate_weekday ::
  "Schedule \<Rightarrow> cron_error option list \<Rightarrow> Schedule \<times> cron_error option list" where
  "validate_weekday s errs =
     (let ws = Schedule_Weekday s in
      if ws = [Any] \<or> ws = [Blank] then (s \<lparr> allowAnyWeekday := True \<rparr>, errs)
      else
        let r = parse weekdayOpts ws
        in (s \<lparr> weekdays := parsed_values r \<rparr>, errs @ [parsed_error r]))"

definition validate :: "Schedule \<Rightarrow> Schedule \<times> cron_error option" where
  "validate s =
     (let (s1, errs1) = validate_minute s [];
          (s2, errs2) = validate_hour s1 errs1;
          (s3, errs3) = validate_day s2 errs2;
          (s4, errs4) = validate_month s3 errs3;
          (s5, errs5) = validate_weekday s4 errs4
      in (s5, errors_Join errs5))"

definition New :: "string \<Rightarrow> Location option \<Rightarrow> Time \<Rightarrow> Schedule option \<times> cron_error option" where
  "New cron l now =
     (let l1 = (case l of None \<Rightarrow> UTC | Some l0 \<Rightarrow> l0);
          s = \<lparr> cron_values = replicate 5 [], loc = l1, created = In now l1,
                minutes = None, minutesDesc = None, allowAnyMinute = False,
                hours = None, allowAnyHour = False,
                days = None, allowAnyDay = False,
                months = None, allowAnyMonth = False,
                weekdays = None, allowAnyWeekday = False \<rparr>;
          cron1 = TrimSpace cron;
          cron2 = (case map_of cronShortcut cron1 of Some cs \<Rightarrow> cs | None \<Rightarrow> cron1);
          vals = Split cron2 (CHR '' '')
      in if length vals \<noteq> 5 then (None, Some (FieldCount cron2 (length vals)))
         else
           let (s1, err) = validate (s \<lparr> cron_values := vals \<rparr>)
           in (Some s1, err))"

definition isMinute :: "Schedule \<Rightarrow> Time \<Rightarrow> bool" where
  "isMinute s t =
     (if allowAnyMinute s then True else Time_Minute t \<in> set (elems (minutes s)))"

definition isHour :: "Schedule \<Rightarrow> Time \<Rightarrow> bool" where
  "isHour s t =
     (if allowAnyHour s then True else Time_Hour t \<in> set (elems (hours s)))"

definition isDay :: "Schedule \<Rightarrow> Time \<Rightarrow> bool" where
  "isDay s t =
     (if allowAnyDay s then True
      else if Time_Day t \<in> set (elems (days s)) then True
      else if Schedule_Day s = [Last] then
        (let targetMonth = Time_Month t + 1;
             nextMonth = Date (Time_Year t) targetMonth 1 0 0 0 (zone t);
             lastOfThisMonth = Add nextMonth (- 24 * Hour_d)
         in Time_Day lastOfThisMonth = Time_Day t)
      else False)"

definition isMonth :: "Schedule \<Rightarrow> Time \<Rightarrow> bool" where
  "isMonth s t =
     (if allowAnyMonth s then True else Time_Month t \<in> set (elems (months s)))"

definition isWeekday :: "Schedule \<Rightarrow> Time \<Rightarrow> bool" where
  "isWeekday s t =
     (if allowAnyWeekday s then True else Time_Weekday t \<in> set (elems (weekdays s)))"

definition Matches :: "Schedule \<Rightarrow> Time \<Rightarrow> bool" where
  "Matches s t = (isWeekday s t \<and> isMonth s t \<and> isDay s t \<and> isHour s t \<and> isMinute s t)"

partial_function (option) next_loop :: "Schedule \<Rightarrow> Time \<Rightarrow> Time option" where
  "next_loop s t =
     (let t1 = Add t Minute_d in if Matches s t1 then Some t1 else next_loop s t1)"

partial_function (option) prev_loop :: "Schedule \<Rightarrow> Time \<Rightarrow> Time option" where
  "prev_loop s t =
     (let t1 = Add t (- Minute_d) in if Matches s t1 then Some t1 else prev_loop s t1)"

definition shortcut :: "string \<Rightarrow> string" where
  "shortcut k = (case map_of cronShortcut k of Some v \<Rightarrow> v | None \<Rightarrow> [])"

definition nextNoTruncate :: "Schedule \<Rightarrow> Time \<Rightarrow> Time option" where
  "nextNoTruncate s t =
     (let cronExpr = String s in
      if cronExpr = shortcut Yearly
        then Some (Date (Time_Year t + 1) 1 1 0 0 0 (zone t))
      else if cronExpr = Monthly
        then (if Time_Month t = 12
              then Some (Date (Time_Year t + 1) 1 1 0 0 0 (zone t))
              else Some (Date (Time_Year t) (Time_Month t + 1) 1 0 0 0 (zone t)))
      else next_loop s t)"

definition Next :: "Schedule \<Rightarrow> Time \<Rightarrow> Time option" where
  "Next s t = nextNoTruncate s (Truncate (In t (loc s)) Minute_d)"

definition Prev :: "Schedule \<Rightarrow> Time \<Rightarrow> Time option" where
  "Prev s t = prev_loop s (Truncate (In t (loc s)) Minute_d)"

section \<open>The scheduled job (job.go)\<close>

text \<open>
  \<^verbatim>\<open>ScheduleState\<close> is an \<^verbatim>\<open>int64\<close> whose named values start at \<^verbatim>\<open>iota + 1\<close>; the
  job keeps it in an \<^verbatim>\<open>atomic.Int64\<close> whose zero value, 0, is none of the three names.
  The state is therefore kept as the raw integer.
\<close>

definition ScheduleStarted :: int where "ScheduleStarted = 1"
definition ScheduleSuspended :: int where "ScheduleSuspended = 2"
definition ScheduleStopped :: int where "ScheduleStopped = 3"

record ScheduledJobOptions =
  MaxConcurrent :: int
  TickerReceiveTimeout :: int
  MaxFailures :: int
  MaxConsecutiveFailures :: int

text \<open>
  A \<^verbatim>\<open>JobRuntime\<close>: start and end instants and the callback's error (\<open>None\<close> is
  \<^verbatim>\<open>nil\<close>).
\<close>

record JobRuntime =
  Start_time :: int
  End_time :: int
  Error :: "string option"

text \<open>
  The fields of \<^verbatim>\<open>ScheduledJob\<close> that the state machine and the counters use. The
  channel \<^verbatim>\<open>stopCh\<close> (\<^verbatim>\<open>make(chan struct{}, 1)\<close>) carries no data, so it is the number
  of signals in its buffer, at most \<open>stopCh_cap\<close>. The schedule, the ticker and the
  callback are outside the record: the callback's result is an argument of \<open>execute\<close>.
  The counters are \<^verbatim>\<open>atomic.Int64\<close>; they are integers here, and nothing below comes
  near \<open>2 ^ 63\<close>.
\<close>

record ScheduledJob =
  runtimes :: "JobRuntime list"
  stopCh :: nat
  Failures :: int
  ConsecutiveFailures :: int
  Runs :: int
  Running :: int
  state :: int
  previouslyStarted :: bool
  options :: ScheduledJobOptions

definition stopCh_cap :: nat where "stopCh_cap = 1"

definition NewScheduledJob :: "ScheduledJobOptions \<Rightarrow> ScheduledJob" where
  "NewScheduledJob opts =
     \<lparr> runtimes = [], stopCh = 0, Failures = 0, ConsecutiveFailures = 0, Runs = 0,
       Running = 0, state = 0, previouslyStarted = False, options = opts \<rparr>"

text \<open>
  \<^verbatim>\<open>ScheduleFunc\<close> builds the job, stores \<^verbatim>\<open>ScheduleStarted\<close> and the one-shot flag,
  and launches \<^verbatim>\<open>start\<close> in the background; this is the job it returns.
\<close>

definition ScheduleFunc :: "ScheduledJobOptions \<Rightarrow> ScheduledJob" where
  "ScheduleFunc opts =
     (NewScheduledJob opts) \<lparr> state := ScheduleStarted, previouslyStarted := True \<rparr>"

text \<open>\<^verbatim>\<open>state.CompareAndSwap(old, new)\<close>: the flag it returns and the job after it.\<close>

definition CompareAndSwap :: "int \<Rightarrow> int \<Rightarrow> ScheduledJob \<Rightarrow> bool \<times> ScheduledJob" where
  "CompareAndSwap old new j =
     (if state j = old then (True, j \<lparr> state := new \<rparr>) else (False, j))"

definition Suspend :: "ScheduledJob \<Rightarrow> bool \<times> ScheduledJob" where
  "Suspend j = CompareAndSwap ScheduleStarted ScheduleSuspended j"

definition Resume :: "ScheduledJob \<Rightarrow> bool \<times> ScheduledJob" where
  "Resume j = CompareAndSwap ScheduleSuspended ScheduleStarted j"

text \<open>
  \<^verbatim>\<open>Stop\<close> first runs \<^verbatim>\<open>select { case <-ctx.Done(): case s.stopCh <- struct{}{}: }\<close>, with
  no default branch. The send can proceed when the buffer has room, the other branch
  when the context is done; when both can, Go picks one, which is the argument
  \<open>pick_send\<close>. When neither can, the call waits: the result is \<open>None\<close>. After the
  select the state is swapped for \<^verbatim>\<open>ScheduleStopped\<close> and the flag tells whether the
  old state was another one.
\<close>

definition Stop :: "bool \<Rightarrow> bool \<Rightarrow> ScheduledJob \<Rightarrow> (bool \<times> ScheduledJob) option" where
  "Stop ctx_done pick_send j =
     (let can_send = stopCh j < stopCh_cap in
      if \<not> ctx_done \<and> \<not> can_send then None
      else
        let j1 = (if can_send \<and> (pick_send \<or> \<not> ctx_done)
                  then j \<lparr> stopCh := stopCh j + 1 \<rparr> else j);
            old = state j1;
            j2 = j1 \<lparr> state := ScheduleStopped \<rparr>
        in Some (old \<noteq> ScheduleStopped, j2))"

text \<open>
  The first statements of \<^verbatim>\<open>start\<close>, under the mutex: the state becomes
  \<^verbatim>\<open>ScheduleStarted\<close> and the one-shot flag is set. The goroutines it then launches are
  the steps \<open>watcher\<close> and \<open>dispatch\<close> below.
\<close>

definition start_begin :: "ScheduledJob \<Rightarrow> ScheduledJob" where
  "start_begin j = j \<lparr> state := ScheduleStarted, previouslyStarted := True \<rparr>"

datatype start_result =
    StartError string ScheduledJob
  | StartRuns ScheduledJob

text \<open>
  \<^verbatim>\<open>Start\<close>: the two guards return an error and touch nothing (the job is returned as
  it was); otherwise control passes to \<^verbatim>\<open>start\<close>, whose first statements give the job
  of \<open>StartRuns\<close>.
\<close>

definition Start :: "ScheduledJob \<Rightarrow> start_result" where
  "Start j =
     (if state j = ScheduleStopped
        then StartError ''cannot start a job that has been stopped'' j
      else if previouslyStarted j
        then StartError ''job has already been started'' j
      else StartRuns (start_begin j))"






text \<open>The options of the tests' jobs that set no failure limit.\<close>

definition plain_options :: ScheduledJobOptions where
  "plain_options =
     \<lparr> MaxConcurrent = 0, TickerReceiveTimeout = 5, MaxFailures = 0,
       MaxConsecutiveFailures = 0 \<rparr>"


text \<open>
  Names for what \<^verbatim>\<open>New\<close> computes on the way, used to state what it returns: the
  expression after trimming and macro expansion, its space-separated values, and the
  error of one field (none for a wildcard, which is not parsed at all).
\<close>

definition expand :: "string \<Rightarrow> string" where
  "expand cron =
     (case map_of cronShortcut (TrimSpace cron) of Some cs \<Rightarrow> cs | None \<Rightarrow> TrimSpace cron)"

definition cron_fields :: "string \<Rightarrow> string list" where
  "cron_fields cron = Split (expand cron) (CHR '' '')"

definition field_error :: "field \<Rightarrow> bool \<Rightarrow> string \<Rightarrow> cron_error option" where
  "field_error f blank_ok v =
     (if v = [Any] \<or> (blank_ok \<and> v = [Blank]) then None else parsed_error (parse f v))"

definition field_errors :: "string list \<Rightarrow> cron_error option list" where
  "field_errors vs =
     [field_error minuteOpts False (vs ! 0), field_error hourOpts False (vs ! 1),
      field_error dayOpts True (vs ! 2), field_error monthOpts True (vs ! 3),
      field_error weekdayOpts True (vs ! 4)]"

definition non_nil :: "cron_error option list \<Rightarrow> cron_error list" where
  "non_nil errs = List.map_filter (\<lambda>e. e) errs"

text \<open>A clock reading for the schedules built below (2024-10-31T02:30:00Z).\<close>

definition test_now :: Time where
  "test_now = \<lparr> unix = 1730341800, zone = 0 \<rparr>"

text \<open>
  The instant \<open>k\<close> whole minutes after, or before, an instant: what the loops of
  \<^verbatim>\<open>nextNoTruncate\<close> and \<^verbatim>\<open>Prev\<close> reach after \<open>k\<close> rounds.
\<close>

definition later :: "Time \<Rightarrow> nat \<Rightarrow> Time" where
  "later t k = Add t (int k * Minute_d)"

definition earlier :: "Time \<Rightarrow> nat \<Rightarrow> Time" where
  "earlier t k = Add t (- (int k * Minute_d))"

text \<open>The schedule that \<open>New\<close> returns for \<open>5/10 4,5 * * *\<close> (it does return one).\<close>

definition sched8 :: Schedule where
  "sched8 = the (fst (New ''5/10 4,5 * * *'' None test_now))"

section \<open>Properties of the scheduled job\<close>

lemma Suspend_eq:
  "Suspend j = (if state j = ScheduleStarted
                then (True, j \<lparr> state := ScheduleSuspended \<rparr>) else (False, j))"
  by (simp add: Suspend_def CompareAndSwap_def)

lemma Resume_eq:
  "Resume j = (if state j = ScheduleSuspended
               then (True, j \<lparr> state := ScheduleStarted \<rparr>) else (False, j))"
  by (simp add: Resume_def CompareAndSwap_def)

lemma Stop_proceeds:
  assumes "ctx_done \<or> stopCh j < stopCh_cap"
  shows "\<exists>j'. Stop ctx_done pick j = Some (state j \<noteq> ScheduleStopped, j')
              \<and> state j' = ScheduleStopped \<and> previouslyStarted j' = previouslyStarted j
              \<and> Runs j' = Runs j \<and> Failures j' = Failures j"
  using assms by (auto simp: Stop_def Let_def)

lemma Stop_waits:
  assumes "\<not> ctx_done" "\<not> stopCh j < stopCh_cap"
  shows "Stop ctx_done pick j = None"
  using assms by (simp add: Stop_def Let_def)

lemma Start_refuses:
  assumes "state j = ScheduleStopped \<or> previouslyStarted j"
  shows "\<exists>msg. Start j = StartError msg j"
  using assms by (auto simp: Start_def)

text \<open>
  C9, as the code has it. \<open>Suspend\<close> returns true and changes the state only from
  Started (to Suspended), and otherwise returns false and leaves the job as it was;
  \<open>Resume\<close> likewise only from Suspended to Started. \<open>Stop\<close>, once its select can
  proceed (the context is done, or the one-slot stop channel has room), stores Stopped
  whatever the state was and returns true exactly when the state was not Stopped already;
  with the channel full and the context live it does not return. \<open>Start\<close> returns an error
  and leaves the job untouched when the job is Stopped or was started before.
\<close>

theorem C9_job_state_machine:
  "Suspend j = (if state j = ScheduleStarted
                then (True, j \<lparr> state := ScheduleSuspended \<rparr>) else (False, j))
   \<and> Resume j = (if state j = ScheduleSuspended
                then (True, j \<lparr> state := ScheduleStarted \<rparr>) else (False, j))
   \<and> (ctx_done \<or> stopCh j < stopCh_cap \<longrightarrow>
        (\<exists>j'. Stop ctx_done pick j = Some (state j \<noteq> ScheduleStopped, j')
              \<and> state j' = ScheduleStopped \<and> previouslyStarted j' = previouslyStarted j
              \<and> Runs j' = Runs j \<and> Failures j' = Failures j))
   \<and> (\<not> ctx_done \<and> \<not> stopCh j < stopCh_cap \<longrightarrow> Stop ctx_done pick j = None)
   \<and> (state j = ScheduleStopped \<or> previouslyStarted j \<longrightarrow>
        (\<exists>msg. Start j = StartError msg j))"
proof (intro conjI impI)
  show "Suspend j = (if state j = ScheduleStarted
                then (True, j \<lparr> state := ScheduleSuspended \<rparr>) else (False, j))"
    by (rule Suspend_eq)
  show "Resume j = (if state j = ScheduleSuspended
                then (True, j \<lparr> state := ScheduleStarted \<rparr>) else (False, j))"
    by (rule Resume_eq)
next
  assume "ctx_done \<or> stopCh j < stopCh_cap"
  then show "\<exists>j'. Stop ctx_done pick j = Some (state j \<noteq> ScheduleStopped, j')
              \<and> state j' = ScheduleStopped \<and> previouslyStarted j' = previouslyStarted j
              \<and> Runs j' = Runs j \<and> Failures j' = Failures j"
    by (rule Stop_proceeds)
next
  assume "\<not> ctx_done \<and> \<not> stopCh j < stopCh_cap"
  then show "Stop ctx_done pick j = None"
    by (simp add: Stop_waits)
next
  assume "state j = ScheduleStopped \<or> previouslyStarted j"
  then show "\<exists>msg. Start j = StartError msg j"
    by (rule Start_refuses)
qed

text \<open>
  The theorem at a job built by \<open>ScheduleFunc\<close>: it is Started and was started before,
  its stop channel is empty, so \<open>Suspend\<close> succeeds, \<open>Resume\<close> fails, \<open>Stop\<close> proceeds
  under a live context and \<open>Start\<close> is refused.
\<close>

theorem C9_job_state_machine_witness:
  "fst (Suspend (ScheduleFunc plain_options))
   \<and> state (snd (Suspend (ScheduleFunc plain_options))) = ScheduleSuspended
   \<and> \<not> fst (Resume (ScheduleFunc plain_options))
   \<and> (\<exists>j'. Stop False True (ScheduleFunc plain_options) = Some (True, j')
            \<and> state j' = ScheduleStopped)
   \<and> (\<exists>msg. Start (ScheduleFunc plain_options)
                 = StartError msg (ScheduleFunc plain_options))"
  using C9_job_state_machine [of "ScheduleFunc plain_options" False True]
  by (simp add: ScheduleFunc_def NewScheduledJob_def stopCh_cap_def ScheduleStarted_def
      ScheduleSuspended_def ScheduleStopped_def) blast

text \<open>
  Against C9 as stated (\<open>Stop\<close> from any state): a job that was built and never
  started is stopped once under a live context, which fills the stop channel; the
  second \<open>Stop\<close> under a live context then never gets past its select.
\<close>

theorem C9_second_Stop_waits:
  "Stop False True (NewScheduledJob plain_options)
     = Some (True, (NewScheduledJob plain_options) \<lparr> stopCh := 1, state := ScheduleStopped \<rparr>)
   \<and> Stop False True
        ((NewScheduledJob plain_options) \<lparr> stopCh := 1, state := ScheduleStopped \<rparr>) = None"
  by (simp add: Stop_def NewScheduledJob_def stopCh_cap_def ScheduleStopped_def Let_def)









section \<open>Properties of the parser and of construction\<close>

text \<open>
  C2 says that every accepted field text parses to a strictly ascending sequence without
  duplicates and within the field's bounds. The deferred function of \<^verbatim>\<open>parse\<close> sorts
  the slice in place but assigns the compacted slice to the local variable only, so the
  returned slice keeps its length and the compacted-away tail is zero. With a value
  listed twice: the minute text \<open>1,1\<close> gives \<open>[1, 0]\<close>, and the day text \<open>5,5\<close> gives
  \<open>[5, 0]\<close>, which is not ascending and holds 0, below the day field's minimum 1.
\<close>

theorem C2_repeated_list_value:
  "parse minuteOpts ''1,1'' = Inr (Some [1, 0])
   \<and> parse dayOpts ''5,5'' = Inr (Some [5, 0])
   \<and> \<not> sorted_wrt (<) [5, 0 :: int]
   \<and> \<not> field_Min dayOpts \<le> 0"
  by code_simp

text \<open>
  C3 says that the letter L is accepted only alone and only on the day field. The
  parser lets every text through that holds an L and no digit-only reading, on every
  field: \<open>L\<close> parses without error (to the nil slice) on the minute, hour, month and
  weekday fields, the day text \<open>1,L\<close> parses to \<open>[1]\<close>, and construction from
  \<open>L L 1,L L L\<close> returns no error.
\<close>

theorem C3_L_accepted_everywhere:
  "parse minuteOpts ''L'' = Inr None
   \<and> parse hourOpts ''L'' = Inr None
   \<and> parse monthOpts ''L'' = Inr None
   \<and> parse weekdayOpts ''L'' = Inr None
   \<and> parse dayOpts ''1,L'' = Inr (Some [1])
   \<and> snd (New ''L L 1,L L L'' None test_now) = None"
  by code_simp

text \<open>
  C6 says that a constructed schedule has a non-empty accepted set for every field that
  is neither accept-any nor the day field with L. Construction from \<open>L * * * *\<close>
  succeeds with an empty minute set and the minute's accept-any flag unset.
\<close>

theorem C6_empty_minute_set:
  "(case New ''L * * * *'' None test_now of
      (Some s, None) \<Rightarrow>
        elems (minutes s) = [] \<and> \<not> allowAnyMinute s \<and> Schedule_Minute s = [Last]
    | _ \<Rightarrow> False)"
  by code_simp

lemma non_nil_simps [simp]:
  "non_nil [] = []"
  "non_nil (None # es) = non_nil es"
  "non_nil (Some e # es) = e # non_nil es"
  "non_nil (es @ fs) = non_nil es @ non_nil fs"
  by (simp_all add: non_nil_def List.map_filter_def)


lemma errors_Join_non_nil:
  "errors_Join es = (if non_nil es = [] then None else Some (Joined (non_nil es)))"
  by (simp add: errors_Join_def non_nil_def Let_def)

lemmas accessor_defs = Schedule_Minute_def Schedule_Hour_def Schedule_Day_def
  Schedule_Month_def Schedule_Weekday_def minuteInd_def hourInd_def dayInd_def monthInd_def
  weekdayInd_def

lemma validate_minute_facts:
  "cron_values (fst (validate_minute s errs)) = cron_values s"
  "non_nil (snd (validate_minute s errs))
     = non_nil errs @ non_nil [field_error minuteOpts False (cron_values s ! 0)]"
  by (simp_all add: validate_minute_def field_error_def Let_def accessor_defs)

lemma validate_hour_facts:
  "cron_values (fst (validate_hour s errs)) = cron_values s"
  "non_nil (snd (validate_hour s errs))
     = non_nil errs @ non_nil [field_error hourOpts False (cron_values s ! 1)]"
  by (simp_all add: validate_hour_def field_error_def Let_def accessor_defs)

lemma validate_day_facts:
  "cron_values (fst (validate_day s errs)) = cron_values s"
  "non_nil (snd (validate_day s errs))
     = non_nil errs @ non_nil [field_error dayOpts True (cron_values s ! 2)]"
  by (simp_all add: validate_day_def field_error_def Let_def accessor_defs)

lemma validate_month_facts:
  "cron_values (fst (validate_month s errs)) = cron_values s"
  "non_nil (snd (validate_month s errs))
     = non_nil errs @ non_nil [field_error monthOpts True (cron_values s ! 3)]"
  by (simp_all add: validate_month_def field_error_def Let_def accessor_defs)

lemma validate_weekday_facts:
  "cron_values (fst (validate_weekday s errs)) = cron_values s"
  "non_nil (snd (validate_weekday s errs))
     = non_nil errs @ non_nil [field_error weekdayOpts True (cron_values s ! 4)]"
  by (simp_all add: validate_weekday_def field_error_def Let_def accessor_defs)

lemmas validate_step_facts = validate_minute_facts validate_hour_facts validate_day_facts
  validate_month_facts validate_weekday_facts

lemma validate_values: "cron_values (fst (validate s)) = cron_values s"
  by (simp add: validate_def split_def Let_def validate_step_facts)

lemma validate_errors:
  "snd (validate s) = errors_Join (field_errors (cron_values s))"
proof -
  obtain s1 e1 where a: "validate_minute s [] = (s1, e1)" by fastforce
  obtain s2 e2 where b: "validate_hour s1 e1 = (s2, e2)" by fastforce
  obtain s3 e3 where c: "validate_day s2 e2 = (s3, e3)" by fastforce
  obtain s4 e4 where d: "validate_month s3 e3 = (s4, e4)" by fastforce
  obtain s5 e5 where e: "validate_weekday s4 e4 = (s5, e5)" by fastforce
  have v1: "cron_values s1 = cron_values s"
    and n1: "non_nil e1 = non_nil [field_error minuteOpts False (cron_values s ! 0)]"
    using validate_minute_facts [of s "[]"] a by simp_all
  have v2: "cron_values s2 = cron_values s"
    and n2: "non_nil e2 = non_nil e1 @ non_nil [field_error hourOpts False (cron_values s ! 1)]"
    using validate_hour_facts [of s1 e1] b v1 by simp_all
  have v3: "cron_values s3 = cron_values s"
    and n3: "non_nil e3 = non_nil e2 @ non_nil [field_error dayOpts True (cron_values s ! 2)]"
    using validate_day_facts [of s2 e2] c v2 by simp_all
  have v4: "cron_values s4 = cron_values s"
    and n4: "non_nil e4 = non_nil e3 @ non_nil [field_error monthOpts True (cron_values s ! 3)]"
    using validate_month_facts [of s3 e3] d v3 by simp_all
  have n5: "non_nil e5 = non_nil e4 @ non_nil [field_error weekdayOpts True (cron_values s ! 4)]"
    using validate_weekday_facts [of s4 e4] e v4 by simp
  have "non_nil e5 = non_nil (field_errors (cron_values s))"
    unfolding n5 n4 n3 n2 n1 field_errors_def
    by (simp only: non_nil_simps(4) [symmetric] append.simps append_assoc)
  moreover have "snd (validate s) = errors_Join e5"
    by (simp add: validate_def a b c d e)
  ultimately show ?thesis
    by (simp add: errors_Join_non_nil)
qed

lemma New_bad_count:
  assumes "length (cron_fields cron) \<noteq> 5"
  shows "New cron l now = (None, Some (FieldCount (expand cron) (length (cron_fields cron))))"
  using assms by (simp add: New_def cron_fields_def expand_def Let_def)

lemma New_five:
  assumes "length (cron_fields cron) = 5"
  shows "\<exists>s. fst (New cron l now) = Some s \<and> cron_values s = cron_fields cron"
    and "snd (New cron l now) = errors_Join (field_errors (cron_fields cron))"
  using assms
  by (simp_all add: New_def cron_fields_def expand_def Let_def split_def validate_values
      validate_errors)






lemma Join_has_sep:
  "2 \<le> length vs \<Longrightarrow> c \<in> set (Join vs [c])"
  by (cases vs; cases "tl vs") auto

lemma New_Some_fields:
  assumes "fst (New cron l now) = Some s"
  shows "length (cron_fields cron) = 5" and "cron_values s = cron_fields cron"
proof -
  show five: "length (cron_fields cron) = 5"
  proof (rule ccontr)
    assume "length (cron_fields cron) \<noteq> 5"
    from New_bad_count [OF this] assms show False by simp
  qed
  from New_five(1) [OF five, of l now] assms show "cron_values s = cron_fields cron"
    by auto
qed

lemma String_not_Monthly:
  assumes "fst (New cron l now) = Some s"
  shows "String s \<noteq> Monthly"
proof -
  have "length (cron_values s) = 5"
    using New_Some_fields [OF assms] by simp
  then have "CHR '' '' \<in> set (String s)"
    unfolding String_def by (intro Join_has_sep) simp
  moreover have "CHR '' '' \<notin> set Monthly"
    by (simp add: Monthly_def)
  ultimately show ?thesis by metis
qed

lemma Monthly_String:
  assumes "fst (New cron l now) = Some s" and "TrimSpace cron = Monthly"
  shows "String s = ''0 0 1 * *''"
proof -
  have "cron_fields cron = [''0'', ''0'', ''1'', ''*'', ''*'']"
    unfolding cron_fields_def expand_def assms(2) by code_simp
  then show ?thesis
    using New_Some_fields(2) [OF assms(1)] by (simp add: String_def)
qed

lemma shortcut_Yearly: "shortcut Yearly = ''0 0 1 1 *''"
  by code_simp

text \<open>
  C4. For every schedule that \<open>New\<close> returns, the canonical string (the five values
  joined by single spaces) is not the macro name \<open>@monthly\<close>: it holds four spaces.
  So \<open>nextNoTruncate\<close> never takes its monthly branch: it takes the yearly branch
  when the string is \<open>0 0 1 1 *\<close> and runs the minute-stepping loop otherwise. For the
  macro \<open>@monthly\<close> itself the string is \<open>0 0 1 * *\<close> and \<open>Next\<close> is the loop, started
  at the truncated instant.
\<close>

theorem C4_monthly_branch_never_taken:
  assumes "fst (New cron l now) = Some s"
  shows "String s \<noteq> Monthly
       \<and> nextNoTruncate s t
           = (if String s = shortcut Yearly
              then Some (Date (Time_Year t + 1) 1 1 0 0 0 (zone t))
              else next_loop s t)
       \<and> (TrimSpace cron = Monthly \<longrightarrow>
            String s = ''0 0 1 * *'' \<and> nextNoTruncate s t = next_loop s t
            \<and> Next s t = next_loop s (Truncate (In t (loc s)) Minute_d))"
proof -
  have nm: "String s \<noteq> Monthly" by (rule String_not_Monthly [OF assms])
  have general: "\<And>u. nextNoTruncate s u
           = (if String s = shortcut Yearly
              then Some (Date (Time_Year u + 1) 1 1 0 0 0 (zone u))
              else next_loop s u)"
    using nm by (simp add: nextNoTruncate_def Let_def)
  have "String s = ''0 0 1 * *'' \<and> nextNoTruncate s t = next_loop s t
            \<and> Next s t = next_loop s (Truncate (In t (loc s)) Minute_d)"
    if "TrimSpace cron = Monthly"
  proof -
    have str: "String s = ''0 0 1 * *''" by (rule Monthly_String [OF assms that])
    then have "String s \<noteq> shortcut Yearly" by (simp add: shortcut_Yearly)
    then show ?thesis using str general by (simp add: Next_def)
  qed
  then show ?thesis using nm general by blast
qed

text \<open>The theorem at the schedule built from the macro \<open>@monthly\<close>.\<close>

theorem C4_monthly_branch_never_taken_witness:
  "(\<exists>s. fst (New Monthly None test_now) = Some s
     \<and> String s = ''0 0 1 * *'' \<and> String s \<noteq> Monthly
     \<and> nextNoTruncate s test_now = next_loop s test_now)"
proof -
  have "length (cron_fields Monthly) = 5" by code_simp
  then obtain s where s: "fst (New Monthly None test_now) = Some s"
    using New_five(1) [of Monthly None test_now] by blast
  have "TrimSpace Monthly = Monthly" by code_simp
  then show ?thesis
    using C4_monthly_branch_never_taken [OF s, of test_now] s by auto
qed

section \<open>Properties of the calendar\<close>

lemma div_unique_int:
  fixes x n c :: int
  assumes "0 < n" "n * c \<le> x" "x < n * c + n"
  shows "x div n = c"
proof -
  have "x = c * n + (x - n * c)" by (simp add: mult.commute)
  then have "x div n = c + (x - n * c) div n"
    using assms(1) by (metis div_mult_self3 less_irrefl)
  moreover have "(x - n * c) div n = 0"
    using assms by (intro div_pos_pos_trivial) auto
  ultimately show ?thesis by simp
qed

lemma dby_digits:
  fixes a c q r :: int
  assumes "0 \<le> c" "c \<le> 3" "0 \<le> q" "q \<le> 24" "0 \<le> r" "r \<le> 3"
  shows "days_before_year (400 * a + 100 * c + 4 * q + r + 1)
           = 146097 * a + 36524 * c + 1461 * q + 365 * r"
proof -
  let ?p = "400 * a + 100 * c + 4 * q + r"
  have d4: "?p div 4 = 100 * a + 25 * c + q"
    using assms by (intro div_unique_int) auto
  have d100: "?p div 100 = 4 * a + c"
    using assms by (intro div_unique_int) auto
  have d400: "?p div 400 = a"
    using assms by (intro div_unique_int) auto
  show ?thesis
    unfolding days_before_year_def Let_def using d4 d100 d400 by simp
qed

lemma mod_zero_top:
  fixes x n :: int
  assumes "0 < x" "x \<le> n"
  shows "x mod n = 0 \<longleftrightarrow> x = n"
proof (cases "x = n")
  case True
  then show ?thesis by simp
next
  case False
  with assms have "x mod n = x" by (intro mod_pos_pos_trivial) auto
  with assms False show ?thesis by simp
qed

lemma leap_digits:
  fixes a c q r :: int
  assumes "0 \<le> c" "c \<le> 3" "0 \<le> q" "q \<le> 24" "0 \<le> r" "r \<le> 3"
  shows "isLeap (400 * a + 100 * c + 4 * q + r + 1) \<longleftrightarrow> r = 3 \<and> (q < 24 \<or> c = 3)"
proof -
  let ?y = "400 * a + 100 * c + 4 * q + r + 1"
  have "?y = (r + 1) + 4 * (100 * a + 25 * c + q)" by simp
  then have m4: "?y mod 4 = (r + 1) mod 4"
    by (metis mod_mult_self2)
  have "?y = (4 * q + r + 1) + 100 * (4 * a + c)" by simp
  then have m100: "?y mod 100 = (4 * q + r + 1) mod 100"
    by (metis mod_mult_self2)
  have "?y = (100 * c + 4 * q + r + 1) + 400 * a" by simp
  then have m400: "?y mod 400 = (100 * c + 4 * q + r + 1) mod 400"
    by (metis mod_mult_self2)
  have a: "(r + 1) mod 4 = 0 \<longleftrightarrow> r = 3"
    using assms mod_zero_top [of "r + 1" 4] by auto
  have "(4 * q + r + 1) mod 100 = 0 \<longleftrightarrow> 4 * q + r + 1 = 100"
    using assms by (intro mod_zero_top) auto
  also have "\<dots> \<longleftrightarrow> q = 24 \<and> r = 3"
    using assms by presburger
  finally have b: "(4 * q + r + 1) mod 100 = 0 \<longleftrightarrow> q = 24 \<and> r = 3" .
  have "(100 * c + 4 * q + r + 1) mod 400 = 0 \<longleftrightarrow> 100 * c + 4 * q + r + 1 = 400"
    using assms by (intro mod_zero_top) auto
  also have "\<dots> \<longleftrightarrow> c = 3 \<and> q = 24 \<and> r = 3"
    using assms by presburger
  finally have c: "(100 * c + 4 * q + r + 1) mod 400 = 0 \<longleftrightarrow> c = 3 \<and> q = 24 \<and> r = 3" .
  show ?thesis
    unfolding isLeap_def m4 m100 m400 a b c using assms by auto
qed


lemma step100:
  fixes d1 :: int
  assumes "0 \<le> d1" "d1 < 146097"
  shows "0 \<le> min (d1 div 36524) 3" "36524 * min (d1 div 36524) 3 \<le> d1"
    "d1 - 36524 * min (d1 div 36524) 3 \<le> 36524"
    "min (d1 div 36524) 3 < 3 \<Longrightarrow> d1 - 36524 * min (d1 div 36524) 3 < 36524"
  using assms by arith+

lemma step4:
  fixes d2 :: int
  assumes "0 \<le> d2" "d2 \<le> 36524"
  shows "0 \<le> d2 div 1461" "d2 div 1461 \<le> 24" "0 \<le> d2 - 1461 * (d2 div 1461)"
    "d2 - 1461 * (d2 div 1461) < 1461"
    "d2 < 36524 \<Longrightarrow> d2 div 1461 = 24 \<Longrightarrow> d2 - 1461 * (d2 div 1461) < 1460"
  using assms by arith+

lemma step1:
  fixes d3 :: int
  assumes "0 \<le> d3" "d3 < 1461"
  shows "0 \<le> min (d3 div 365) 3" "0 \<le> d3 - 365 * min (d3 div 365) 3"
    "d3 - 365 * min (d3 div 365) 3 \<le> 365"
    "min (d3 div 365) 3 < 3 \<Longrightarrow> d3 - 365 * min (d3 div 365) 3 < 365"
    "d3 < 1460 \<Longrightarrow> d3 - 365 * min (d3 div 365) 3 < 365"
  using assms by arith+

lemma year_yday_digits:
  fixes d :: int
  obtains a c q r k where
    "0 \<le> c" "c \<le> 3" "0 \<le> q" "q \<le> 24" "0 \<le> r" "r \<le> 3" "0 \<le> k"
    "k < 365 \<or> (k = 365 \<and> r = 3 \<and> (q < 24 \<or> c = 3))"
    "d = 146097 * a + 36524 * c + 1461 * q + 365 * r + k"
    "year_yday d = (400 * a + 100 * c + 4 * q + r + 1, k)"
proof -
  define a where "a = d div 146097"
  define d1 where "d1 = d - 146097 * a"
  define c where "c = min (d1 div 36524) 3"
  define d2 where "d2 = d1 - 36524 * c"
  define q where "q = d2 div 1461"
  define d3 where "d3 = d2 - 1461 * q"
  define r where "r = min (d3 div 365) 3"
  define k where "k = d3 - 365 * r"
  have d1_mod: "d1 = d mod 146097"
    unfolding d1_def a_def by (simp add: minus_mult_div_eq_mod)
  have d1_bounds: "0 \<le> d1" "d1 < 146097"
    unfolding d1_mod by simp_all
  note s100 = step100 [OF d1_bounds, folded c_def, folded d2_def]
  have c3: "c \<le> 3" unfolding c_def by simp
  have d2_bounds: "0 \<le> d2" "d2 \<le> 36524"
    using s100 unfolding d2_def by auto
  note s4 = step4 [OF d2_bounds, folded q_def, folded d3_def]
  have d3_bounds: "0 \<le> d3" "d3 < 1461" using s4 by auto
  note s1 = step1 [OF d3_bounds, folded r_def, folded k_def]
  have r3: "r \<le> 3" unfolding r_def by simp
  have k365: "k < 365 \<or> (k = 365 \<and> r = 3 \<and> (q < 24 \<or> c = 3))"
  proof (cases "k < 365")
    case True
    then show ?thesis by simp
  next
    case False
    with s1(3) have k: "k = 365" by simp
    from False s1(4) r3 have r: "r = 3" by force
    have "q < 24 \<or> c = 3"
    proof (rule ccontr)
      assume "\<not> (q < 24 \<or> c = 3)"
      with s4(2) c3 have "q = 24" "c < 3" by auto
      with s100(4) have "d2 < 36524" by simp
      with s4(5) \<open>q = 24\<close> have "d3 < 1460" by simp
      with s1(5) False show False by simp
    qed
    with k r show ?thesis by simp
  qed
  have sum: "d = 146097 * a + 36524 * c + 1461 * q + 365 * r + k"
    unfolding k_def d3_def d2_def d1_def by simp
  have yy: "year_yday d = (400 * a + 100 * c + 4 * q + r + 1, k)"
    unfolding year_yday_def Let_def a_def [symmetric] d1_def [symmetric] c_def [symmetric]
      d2_def [symmetric] q_def [symmetric] d3_def [symmetric] r_def [symmetric]
      k_def [symmetric] by simp
  show ?thesis
    using that [OF s100(1) c3 s4(1) s4(2) s1(1) r3 s1(2) k365 sum yy] .
qed

lemma year_yday_sound:
  assumes "year_yday d = (y, k)"
  shows "d = days_before_year y + k" and "0 \<le> k" and "k < year_length y"
proof -
  obtain a c q r k' where dg:
    "0 \<le> c" "c \<le> 3" "0 \<le> q" "q \<le> 24" "0 \<le> r" "r \<le> 3" "0 \<le> k'"
    "k' < 365 \<or> (k' = 365 \<and> r = 3 \<and> (q < 24 \<or> c = 3))"
    "d = 146097 * a + 36524 * c + 1461 * q + 365 * r + k'"
    "year_yday d = (400 * a + 100 * c + 4 * q + r + 1, k')"
    by (rule year_yday_digits)
  from dg(10) assms have y: "y = 400 * a + 100 * c + 4 * q + r + 1" and k: "k = k'"
    by simp_all
  show "d = days_before_year y + k"
    unfolding y k dby_digits [OF dg(1-6)] using dg(9) by simp
  show "0 \<le> k" using dg(7) k by simp
  show "k < year_length y"
    unfolding year_length_def y k leap_digits [OF dg(1-6)] using dg(8) by auto
qed

lemma div_succ:
  fixes p n :: int
  assumes "0 < n"
  shows "(p + 1) div n = p div n + (if (p + 1) mod n = 0 then 1 else 0)"
proof -
  define m where "m = p mod n"
  have p: "p = n * (p div n) + m" unfolding m_def by simp
  have m: "0 \<le> m" "m < n" unfolding m_def using assms by simp_all
  show ?thesis
  proof (cases "m + 1 = n")
    case True
    have eq: "p + 1 = n * (p div n + 1)"
      using p True by (simp add: algebra_simps)
    have "(p + 1) div n = p div n + 1"
      using assms by (subst eq) simp
    moreover have "(p + 1) mod n = 0"
      by (subst eq) simp
    ultimately show ?thesis by simp
  next
    case False
    with m have lt: "m + 1 < n" by simp
    have d: "(p + 1) div n = p div n"
      using assms m lt p by (intro div_unique_int) (auto simp: algebra_simps)
    have "(p + 1) mod n = m + 1"
    proof -
      have "(p + 1) mod n = (p + 1) - n * ((p + 1) div n)"
        by (simp add: minus_mult_div_eq_mod)
      also have "\<dots> = m + 1" unfolding d using p by simp
      finally show ?thesis .
    qed
    with m d show ?thesis by simp
  qed
qed

lemma dby_Suc: "days_before_year (y + 1) = days_before_year y + year_length y"
proof -
  define l4 :: int where "l4 = (if y mod 4 = 0 then 1 else 0)"
  define l100 :: int where "l100 = (if y mod 100 = 0 then 1 else 0)"
  define l400 :: int where "l400 = (if y mod 400 = 0 then 1 else 0)"
  have a: "y div 4 = (y - 1) div 4 + l4"
    unfolding l4_def using div_succ [of 4 "y - 1"] by simp
  have b: "y div 100 = (y - 1) div 100 + l100"
    unfolding l100_def using div_succ [of 100 "y - 1"] by simp
  have c: "y div 400 = (y - 1) div 400 + l400"
    unfolding l400_def using div_succ [of 400 "y - 1"] by simp
  have d: "y mod 100 = 0" if "y mod 400 = 0"
    using mod_mod_cancel [of 100 400 y] that by simp
  have e: "y mod 4 = 0" if "y mod 100 = 0"
    using mod_mod_cancel [of 4 100 y] that by simp
  have len: "year_length y = 365 + l4 - l100 + l400"
  proof (cases "y mod 4 = 0")
    case False
    with d e show ?thesis
      unfolding year_length_def isLeap_def l4_def l100_def l400_def by auto
  next
    case m4: True
    show ?thesis
    proof (cases "y mod 100 = 0")
      case False
      with m4 d show ?thesis
        unfolding year_length_def isLeap_def l4_def l100_def l400_def by auto
    next
      case True
      with m4 show ?thesis
        unfolding year_length_def isLeap_def l4_def l100_def l400_def by auto
    qed
  qed
  have "days_before_year (y + 1) = 365 * y + y div 4 - y div 100 + y div 400"
    unfolding days_before_year_def Let_def by simp
  also have "\<dots> = days_before_year y + (365 + l4 - l100 + l400)"
    unfolding a b c days_before_year_def Let_def by (simp add: algebra_simps)
  finally show ?thesis unfolding len .
qed

lemma year_length_pos: "365 \<le> year_length y"
  by (simp add: year_length_def)

lemma dby_mono:
  assumes "y < y'"
  shows "days_before_year y + year_length y \<le> days_before_year y'"
proof -
  have "y + 1 \<le> y'" using assms by simp
  then show ?thesis
  proof (induction y' rule: int_ge_induct)
    case base
    then show ?case by (simp add: dby_Suc)
  next
    case (step i)
    have "days_before_year (i + 1) = days_before_year i + year_length i"
      by (rule dby_Suc)
    with step.IH year_length_pos [of i] show ?case by simp
  qed
qed

lemma year_yday_unique:
  assumes "0 \<le> k" "k < year_length y"
  shows "year_yday (days_before_year y + k) = (y, k)"
proof -
  obtain Y K where yk: "year_yday (days_before_year y + k) = (Y, K)"
    by fastforce
  note snd = year_yday_sound [OF yk]
  have "Y = y"
  proof (rule ccontr)
    assume "Y \<noteq> y"
    then consider "Y < y" | "y < Y" by linarith
    then show False
    proof cases
      case 1
      from dby_mono [OF 1] snd assms show False by simp
    next
      case 2
      from dby_mono [OF 2] snd assms show False by simp
    qed
  qed
  with snd(1) yk show ?thesis by simp
qed

lemma month_cases:
  fixes m :: int
  assumes "1 \<le> m" "m \<le> 12"
  shows "m = 1 \<or> m = 2 \<or> m = 3 \<or> m = 4 \<or> m = 5 \<or> m = 6 \<or> m = 7 \<or> m = 8 \<or> m = 9
       \<or> m = 10 \<or> m = 11 \<or> m = 12"
  using assms by presburger

lemma days_before_month_values:
  "days_before_month y 1 = 0"
  "days_before_month y 2 = 31"
  "days_before_month y 3 = 59 + (if isLeap y then 1 else 0)"
  "days_before_month y 4 = 90 + (if isLeap y then 1 else 0)"
  "days_before_month y 5 = 120 + (if isLeap y then 1 else 0)"
  "days_before_month y 6 = 151 + (if isLeap y then 1 else 0)"
  "days_before_month y 7 = 181 + (if isLeap y then 1 else 0)"
  "days_before_month y 8 = 212 + (if isLeap y then 1 else 0)"
  "days_before_month y 9 = 243 + (if isLeap y then 1 else 0)"
  "days_before_month y 10 = 273 + (if isLeap y then 1 else 0)"
  "days_before_month y 11 = 304 + (if isLeap y then 1 else 0)"
  "days_before_month y 12 = 334 + (if isLeap y then 1 else 0)"
  by (simp_all add: days_before_month_def daysBefore_def)

lemma month_day_roundtrip:
  assumes "1 \<le> m" "m \<le> 12" "1 \<le> d" "d \<le> days_in_month y m"
  shows "month_day (isLeap y) (days_before_month y m + d - 1) = (m, d)"
    and "days_before_month y m + d - 1 < year_length y"
  using month_cases [OF assms(1,2)] assms(3,4)
  by (elim disjE; simp add: days_before_month_values days_in_month_def month_day_def
      year_length_def Let_def split: if_splits)+

lemma month_day_sound:
  assumes "0 \<le> k" "k < year_length y" "month_day (isLeap y) k = (m, d)"
  shows "1 \<le> m" "m \<le> 12" "1 \<le> d" "d \<le> days_in_month y m"
    "k = days_before_month y m + d - 1"
proof -
  define l :: int where "l = (if isLeap y then 1 else 0)"
  have l: "l = 0 \<or> l = 1" by (simp add: l_def)
  have k: "k < 365 + l" using assms(2) by (auto simp: year_length_def l_def split: if_splits)
  have md: "month_day (isLeap y) k =
     (if k < 31 then (1, k + 1)
      else if k < 59 + l then (2, k - 30)
      else if k < 90 + l then (3, k - (58 + l))
      else if k < 120 + l then (4, k - (89 + l))
      else if k < 151 + l then (5, k - (119 + l))
      else if k < 181 + l then (6, k - (150 + l))
      else if k < 212 + l then (7, k - (180 + l))
      else if k < 243 + l then (8, k - (211 + l))
      else if k < 273 + l then (9, k - (242 + l))
      else if k < 304 + l then (10, k - (272 + l))
      else if k < 334 + l then (11, k - (303 + l))
      else (12, k - (333 + l)))"
    by (simp add: month_day_def l_def Let_def)
  have dbm: "days_before_month y m = (if m = 1 then 0 else if m = 2 then 31 else
      if m = 3 then 59 + l else if m = 4 then 90 + l else if m = 5 then 120 + l else
      if m = 6 then 151 + l else if m = 7 then 181 + l else if m = 8 then 212 + l else
      if m = 9 then 243 + l else if m = 10 then 273 + l else if m = 11 then 304 + l else
      if m = 12 then 334 + l else days_before_month y m)"
    by (simp add: days_before_month_values l_def)
  have dim: "days_in_month y m = (if m = 2 then 28 + l
      else if m = 4 \<or> m = 6 \<or> m = 9 \<or> m = 11 then 30 else 31)"
    by (simp add: days_in_month_def l_def)
  from assms(3) md have *: "(m, d) =
     (if k < 31 then (1, k + 1)
      else if k < 59 + l then (2, k - 30)
      else if k < 90 + l then (3, k - (58 + l))
      else if k < 120 + l then (4, k - (89 + l))
      else if k < 151 + l then (5, k - (119 + l))
      else if k < 181 + l then (6, k - (150 + l))
      else if k < 212 + l then (7, k - (180 + l))
      else if k < 243 + l then (8, k - (211 + l))
      else if k < 273 + l then (9, k - (242 + l))
      else if k < 304 + l then (10, k - (272 + l))
      else if k < 334 + l then (11, k - (303 + l))
      else (12, k - (333 + l)))" by simp
  show "1 \<le> m" "m \<le> 12" using * by (simp_all split: if_splits)
  show "1 \<le> d" using * assms(1) l by (auto split: if_splits)
  show "d \<le> days_in_month y m" unfolding dim using * k l by (auto split: if_splits)
  show "k = days_before_month y m + d - 1"
    using * by (subst dbm) (auto split: if_splits)
qed

lemma date_of_roundtrip:
  assumes "1 \<le> m" "m \<le> 12" "1 \<le> d" "d \<le> days_in_month y m"
  shows "date_of (days_before_year y + days_before_month y m + d - 1) = (y, m, d)"
proof -
  note md = month_day_roundtrip [OF assms]
  have nonneg: "0 \<le> days_before_month y m + d - 1"
    using month_cases [OF assms(1,2)] assms(3)
    by (elim disjE; simp add: days_before_month_values)+
  have yy: "year_yday (days_before_year y + (days_before_month y m + d - 1))
          = (y, days_before_month y m + d - 1)"
    by (rule year_yday_unique [OF nonneg md(2)])
  have arg: "days_before_year y + days_before_month y m + d - 1
          = days_before_year y + (days_before_month y m + d - 1)"
    by simp
  show ?thesis
    unfolding date_of_def arg yy by (simp add: md(1))
qed

lemma date_of_sound:
  assumes "date_of n = (y, m, d)"
  shows "1 \<le> m" "m \<le> 12" "1 \<le> d" "d \<le> days_in_month y m"
    "n = days_before_year y + days_before_month y m + d - 1"
proof -
  obtain Y k where yk: "year_yday n = (Y, k)" by fastforce
  obtain M D where md: "month_day (isLeap Y) k = (M, D)" by fastforce
  from assms yk md have eq: "Y = y" "M = m" "D = d"
    by (simp_all add: date_of_def)
  note ys = year_yday_sound [OF yk]
  note ms = month_day_sound [OF ys(2,3) md]
  show "1 \<le> m" "m \<le> 12" "1 \<le> d" "d \<le> days_in_month y m"
    using ms eq by simp_all
  show "n = days_before_year y + days_before_month y m + d - 1"
    using ys(1) ms(5) eq by simp
qed

lemma days_before_next_month:
  assumes "1 \<le> m" "m < 12"
  shows "days_before_month y (m + 1) = days_before_month y m + days_in_month y m"
proof -
  have "m = 1 \<or> m = 2 \<or> m = 3 \<or> m = 4 \<or> m = 5 \<or> m = 6 \<or> m = 7 \<or> m = 8 \<or> m = 9
       \<or> m = 10 \<or> m = 11"
    using assms by presburger
  then show ?thesis
    by (elim disjE; simp add: days_before_month_values days_in_month_def)+
qed

lemma year_length_December:
  "year_length y = days_before_month y 12 + days_in_month y 12"
  by (simp add: days_before_month_values days_in_month_def year_length_def)

section \<open>Properties of the occurrence search\<close>

lemma later_0 [simp]: "later t 0 = t"
  by (simp add: later_def Add_def)

lemma later_Suc: "later (Add t Minute_d) k = later t (Suc k)"
  by (simp add: later_def Add_def algebra_simps)

lemma earlier_0 [simp]: "earlier t 0 = t"
  by (simp add: earlier_def Add_def)

lemma earlier_Suc: "earlier (Add t (- Minute_d)) k = earlier t (Suc k)"
  by (simp add: earlier_def Add_def algebra_simps)

lemma next_loop_unfold:
  "next_loop s t = (if Matches s (later t 1) then Some (later t 1) else next_loop s (later t 1))"
  by (subst next_loop.simps) (simp add: later_def Let_def)

lemma prev_loop_unfold:
  "prev_loop s t
     = (if Matches s (earlier t 1) then Some (earlier t 1) else prev_loop s (earlier t 1))"
  by (subst prev_loop.simps) (simp add: earlier_def Let_def)

lemma next_loop_first:
  assumes "Matches s (later t (Suc k))" and "\<forall>j. 1 \<le> j \<and> j \<le> k \<longrightarrow> \<not> Matches s (later t j)"
  shows "next_loop s t = Some (later t (Suc k))"
  using assms
proof (induction k arbitrary: t)
  case 0
  then show ?case by (subst next_loop_unfold) simp
next
  case (Suc k)
  have no1: "\<not> Matches s (later t 1)" using Suc.prems(2) by simp
  have "next_loop s (later t 1) = Some (later (later t 1) (Suc k))"
  proof (rule Suc.IH)
    show "Matches s (later (later t 1) (Suc k))"
      using Suc.prems(1) by (simp add: later_def Add_def algebra_simps)
    show "\<forall>j. 1 \<le> j \<and> j \<le> k \<longrightarrow> \<not> Matches s (later (later t 1) j)"
    proof (intro allI impI)
      fix j assume "1 \<le> j \<and> j \<le> k"
      then have "\<not> Matches s (later t (Suc j))" using Suc.prems(2) by simp
      then show "\<not> Matches s (later (later t 1) j)"
        by (simp add: later_def Add_def algebra_simps)
    qed
  qed
  then show ?case
    using no1 by (subst next_loop_unfold) (simp add: later_def Add_def algebra_simps)
qed

lemma next_loop_result:
  assumes "next_loop s t = Some u"
  shows "\<exists>k. u = later t (Suc k) \<and> Matches s u
           \<and> (\<forall>j. 1 \<le> j \<and> j \<le> k \<longrightarrow> \<not> Matches s (later t j))"
  using assms
proof (induction rule: next_loop.raw_induct [rotated 1, consumes 1])
  case (1 loop s t u)
  show ?case
  proof (cases "Matches s (later t 1)")
    case True
    with 1(2) have "u = later t (Suc 0)" by (simp add: later_def Let_def)
    with True show ?thesis by (intro exI [of _ 0]) simp
  next
    case False
    with 1(2) have "loop s (later t 1) = Some u" by (simp add: later_def Let_def)
    from 1(1) [OF this] obtain k where k: "u = later (later t 1) (Suc k)" "Matches s u"
      "\<forall>j. 1 \<le> j \<and> j \<le> k \<longrightarrow> \<not> Matches s (later (later t 1) j)" by blast
    have l: "\<And>j. later (later t 1) j = later t (Suc j)"
      by (simp add: later_def Add_def algebra_simps)
    have "\<forall>j. 1 \<le> j \<and> j \<le> Suc k \<longrightarrow> \<not> Matches s (later t j)"
    proof (intro allI impI)
      fix j assume j: "1 \<le> j \<and> j \<le> Suc k"
      show "\<not> Matches s (later t j)"
      proof (cases "j = 1")
        case True
        with False show ?thesis by simp
      next
        case False
        with j obtain i where "j = Suc i" "1 \<le> i" "i \<le> k" by (cases j) auto
        with k(3) l show ?thesis by auto
      qed
    qed
    with k(1,2) l show ?thesis by (intro exI [of _ "Suc k"]) simp
  qed
qed

lemma next_loop_never:
  assumes "\<forall>k. \<not> Matches s (later t (Suc k))"
  shows "next_loop s t = None"
proof (cases "next_loop s t")
  case None
  then show ?thesis .
next
  case (Some u)
  from next_loop_result [OF Some] assms show ?thesis by blast
qed

lemma next_loop_total:
  assumes "Matches s (later t (Suc n))"
  shows "\<exists>k. next_loop s t = Some (later t (Suc k)) \<and> Matches s (later t (Suc k))
           \<and> (\<forall>j. 1 \<le> j \<and> j \<le> k \<longrightarrow> \<not> Matches s (later t j))"
proof -
  define k where "k = (LEAST k. Matches s (later t (Suc k)))"
  have m: "Matches s (later t (Suc k))"
    unfolding k_def using assms by (rule LeastI)
  have least: "\<And>i. Matches s (later t (Suc i)) \<Longrightarrow> k \<le> i"
    unfolding k_def by (rule Least_le)
  have none: "\<forall>j. 1 \<le> j \<and> j \<le> k \<longrightarrow> \<not> Matches s (later t j)"
  proof (intro allI impI notI)
    fix j assume j: "1 \<le> j \<and> j \<le> k" and mj: "Matches s (later t j)"
    from j obtain i where i: "j = Suc i" by (cases j) auto
    with mj least have "k \<le> i" by simp
    with j i show False by simp
  qed
  from next_loop_first [OF m none] m none show ?thesis by blast
qed

lemma day_split:
  assumes "unix t + zone t = 86400 * d + r" "0 \<le> r" "r < 86400"
  shows "abs_day t = d + unix_epoch_day" and "second_of_day t = r"
proof -
  have dv: "(unix t + zone t) div 86400 = d"
    using assms by (intro div_unique_int) auto
  then show "abs_day t = d + unix_epoch_day" by (simp add: abs_day_def)
  have "(unix t + zone t) mod 86400 = (unix t + zone t) - 86400 * ((unix t + zone t) div 86400)"
    by (simp add: minus_mult_div_eq_mod)
  then show "second_of_day t = r"
    unfolding second_of_day_def dv using assms(1) by simp
qed

lemma New8: "New ''5/10 4,5 * * *'' None test_now = (Some sched8, None)"
  unfolding sched8_def by code_simp

lemma sched8_eq:
  "sched8 = \<lparr> cron_values = [''5/10'', ''4,5'', ''*'', ''*'', ''*''], loc = 0,
      created = test_now, minutes = Some [5, 15, 25, 35, 45, 55],
      minutesDesc = Some [55, 45, 35, 25, 15, 5], allowAnyMinute = False,
      hours = Some [4, 5], allowAnyHour = False, days = None,
      allowAnyDay = True, months = None, allowAnyMonth = True,
      weekdays = None, allowAnyWeekday = True \<rparr>"
  unfolding sched8_def by code_simp

lemma Matches8:
  "Matches sched8 t \<longleftrightarrow>
     Time_Hour t \<in> {4, 5} \<and> Time_Minute t \<in> {5, 15, 25, 35, 45, 55}"
  by (auto simp: Matches_def isWeekday_def isMonth_def isDay_def isHour_def isMinute_def
      sched8_eq elems_def)

lemma hour_minute_of:
  assumes "second_of_day t = 3600 * h + 60 * m + x" "0 \<le> h" "0 \<le> m" "m < 60" "0 \<le> x" "x < 60"
  shows "Time_Hour t = h" and "Time_Minute t = m"
proof -
  show h: "Time_Hour t = h"
    unfolding Time_Hour_def assms(1) using assms by (intro div_unique_int) auto
  have "second_of_day t mod 3600 = second_of_day t - 3600 * (second_of_day t div 3600)"
    by (simp add: minus_mult_div_eq_mod)
  also have "\<dots> = 60 * m + x"
    using h unfolding Time_Hour_def assms(1) by simp
  finally have md: "second_of_day t mod 3600 = 60 * m + x" .
  show "Time_Minute t = m"
    unfolding Time_Minute_def md using assms by (intro div_unique_int) auto
qed

lemma String8: "String sched8 = ''5/10 4,5 * * *''"
  by code_simp

lemma start8: "Truncate (In (Date 2024 2 21 11 30 0 UTC) (loc sched8)) Minute_d
    = \<lparr> unix = 1708515000, zone = 0 \<rparr>"
  by code_simp

lemma target8: "Date 2024 2 22 4 5 0 UTC = later \<lparr> unix = 1708515000, zone = 0 \<rparr> (Suc 994)"
  by code_simp

lemma no_match8:
  assumes "1 \<le> j" "j \<le> 994"
  shows "\<not> Matches sched8 (later \<lparr> unix = 1708515000, zone = 0 \<rparr> j)"
proof (cases "j < 750")
  case True
  have "second_of_day (later \<lparr> unix = 1708515000, zone = 0 \<rparr> j) = 41400 + 60 * int j"
    using True by (intro day_split(2) [where d = 19774]) (simp_all add: later_def Add_def Minute_d_def)
  then have "Time_Hour (later \<lparr> unix = 1708515000, zone = 0 \<rparr> j) = (41400 + 60 * int j) div 3600"
    by (simp add: Time_Hour_def)
  moreover have "11 \<le> (41400 + 60 * int j) div 3600"
    using assms by arith
  ultimately show ?thesis by (simp add: Matches8)
next
  case False
  define x where "x = int j - 750"
  have x: "0 \<le> x" "x \<le> 244" using False assms by (simp_all add: x_def)
  have sod: "second_of_day (later \<lparr> unix = 1708515000, zone = 0 \<rparr> j) = 60 * x"
    using x by (intro day_split(2) [where d = 19775]) (simp_all add: later_def Add_def Minute_d_def x_def)
  show ?thesis
  proof (cases "x < 240")
    case True
    have "Time_Hour (later \<lparr> unix = 1708515000, zone = 0 \<rparr> j) = (60 * x) div 3600"
      using sod by (simp add: Time_Hour_def)
    moreover have "(60 * x) div 3600 < 4" using True x by arith
    ultimately show ?thesis by (simp add: Matches8)
  next
    case False
    have "Time_Minute (later \<lparr> unix = 1708515000, zone = 0 \<rparr> j) = x - 240"
      using sod x False by (intro hour_minute_of(2) [where h = 4 and x = 0]) simp_all
    moreover have "x - 240 < 5" "0 \<le> x - 240" using x False by simp_all
    ultimately show ?thesis by (simp add: Matches8)
  qed
qed

lemma Next8: "Next sched8 (Date 2024 2 21 11 30 0 UTC) = Some (Date 2024 2 22 4 5 0 UTC)"
proof -
  have m: "Matches sched8 (later \<lparr> unix = 1708515000, zone = 0 \<rparr> (Suc 994))"
    unfolding target8 [symmetric] Matches8 by code_simp
  have "next_loop sched8 \<lparr> unix = 1708515000, zone = 0 \<rparr>
      = Some (later \<lparr> unix = 1708515000, zone = 0 \<rparr> (Suc 994))"
    using no_match8 by (intro next_loop_first [OF m]) simp
  moreover have "String sched8 \<noteq> shortcut Yearly" "String sched8 \<noteq> Monthly"
    unfolding String8 by code_simp+
  ultimately show ?thesis
    unfolding Next_def start8 nextNoTruncate_def Let_def target8 by simp
qed

lemma at8:
  "Matches sched8 (Date 2024 2 22 4 15 0 UTC)"
  "Matches sched8 (Date 2024 2 22 4 25 0 UTC)"
  "Matches sched8 (Date 2024 2 22 4 35 0 UTC)"
  "\<not> Matches sched8 (Date 2024 2 22 4 12 0 UTC)"
  unfolding Matches8 by code_simp+

text \<open>
  C8. For \<open>5/10 4,5 * * *\<close> construction succeeds, the minute set is
  \<open>5, 15, 25, 35, 45, 55\<close> and the hour set is \<open>4, 5\<close>. The schedule matches an instant
  exactly when its hour is 4 or 5 and its minute is in the minute set; so it matches
  04:15, 04:25 and 04:35 (here on 2024-02-22, as in the tests) and not 04:12. \<open>Next\<close> of
  2024-02-21T11:30:00Z is 2024-02-22T04:05:00Z.
\<close>

theorem C8_every_tenth_minute_from_five:
  "New ''5/10 4,5 * * *'' None test_now = (Some sched8, None)
   \<and> minutes sched8 = Some [5, 15, 25, 35, 45, 55]
   \<and> hours sched8 = Some [4, 5]
   \<and> (\<forall>t. Matches sched8 t \<longleftrightarrow>
          Time_Hour t \<in> {4, 5} \<and> Time_Minute t \<in> {5, 15, 25, 35, 45, 55})
   \<and> Matches sched8 (Date 2024 2 22 4 15 0 UTC)
   \<and> Matches sched8 (Date 2024 2 22 4 25 0 UTC)
   \<and> Matches sched8 (Date 2024 2 22 4 35 0 UTC)
   \<and> \<not> Matches sched8 (Date 2024 2 22 4 12 0 UTC)
   \<and> Next sched8 (Date 2024 2 21 11 30 0 UTC) = Some (Date 2024 2 22 4 5 0 UTC)"
proof -
  have "minutes sched8 = Some [5, 15, 25, 35, 45, 55]" "hours sched8 = Some [4, 5]"
    by (simp_all add: sched8_eq)
  then show ?thesis
    using New8 Matches8 at8 Next8 by blast
qed

end
